theory Spec2Isabelle
  imports Complex_Main "HOL-Library.Word" "HOL-Library.Sublist"
begin

section \<open>JavaScript values shared by the two display clients\<close>

text \<open>
  A JavaScript string is a sequence of 16-bit code units. \<open>S\<close> turns an ASCII literal of
  the source into that representation. Confidence and timestamps are finite JSON
  numbers and are modelled as reals.
\<close>

type_synonym js_string = "16 word list"

definition S :: "string \<Rightarrow> js_string" where
  "S s = map (\<lambda>c. of_nat (of_char c)) s"

text \<open>
  A received value that the code uses both as a number and as a string (the latency of a
  response): a JSON number, or any other value. The code never asks which it is: a
  template literal converts it to a string and a comparison converts it to a number.
  A value that is not a number is therefore given by the string the template literal
  writes for it and by the number the comparison reads from it (\<open>None\<close> when that is
  NaN); both conversions are the platform's.
\<close>

datatype js_value = JsNumber real | JsOther js_string "real option"

text \<open>
  A message is modelled as \<open>JSON.parse\<close> returns it for the message shapes of the
  protocol: an object with a \<open>type\<close> string and a \<open>data\<close> object. One record holds
  every field of \<open>data\<close> any handler destructures; a field a handler tests for presence
  is optional. \<open>is_final\<close> is read for its truthiness only.
\<close>

record msg_data =
  "text" :: "js_string option"
  is_final :: bool
  confidence :: real
  timestamp :: real
  question :: "js_string option"
  "context" :: "js_string option"
  latency_ms :: js_value
  status :: js_string
  message :: "js_string option"

record ws_message =
  "type" :: js_string
  data :: msg_data

datatype readyState = CONNECTING | OPEN | CLOSING | CLOSED

text \<open>
  \<open>String.prototype.trim\<close> removes WhiteSpace and LineTerminator code units from both
  ends of a string.
\<close>

definition isWhiteSpace :: "16 word \<Rightarrow> bool" where
  "isWhiteSpace c =
     (c = 0x09 \<or> c = 0x0A \<or> c = 0x0B \<or> c = 0x0C \<or> c = 0x0D \<or> c = 0x20 \<or> c = 0xA0
      \<or> c = 0x1680 \<or> (0x2000 \<le> c \<and> c \<le> 0x200A) \<or> c = 0x2028 \<or> c = 0x2029
      \<or> c = 0x202F \<or> c = 0x205F \<or> c = 0x3000 \<or> c = 0xFEFF)"

definition trim :: "js_string \<Rightarrow> js_string" where
  "trim t = rev (dropWhile isWhiteSpace (rev (dropWhile isWhiteSpace t)))"

text \<open>
  A loop \<open>while (c.children.length > max) c.removeChild(c.firstChild)\<close> over the list
  of children of a container.
\<close>

function limitChildren :: "nat \<Rightarrow> 'a list \<Rightarrow> 'a list" where
  "limitChildren maxItems children =
     (if length children > maxItems then limitChildren maxItems (tl children) else children)"
  by pat_completeness auto
termination
  by (relation "measure (\<lambda>(m, c). length c)") auto

declare limitChildren.simps [simp del]

section \<open>The Electron renderer\<close>

subsection \<open>Utility functions\<close>

text \<open>
  \<open>getLatencyClass\<close>, the colour class of a latency in milliseconds.
\<close>

definition getLatencyClass :: "real \<Rightarrow> js_string" where
  "getLatencyClass latencyMs =
     (if latencyMs < 1000 then S ''good''
      else if latencyMs < 2000 then S ''ok''
      else S ''slow'')"

text \<open>
  \<open>getLatencyClass\<close> on a value as received: \<open><\<close> converts its operand to a number, and
  both comparisons are false for NaN.
\<close>

definition getLatencyClass_value :: "js_value \<Rightarrow> js_string" where
  "getLatencyClass_value v =
     (case v of
        JsNumber x \<Rightarrow> getLatencyClass x
      | JsOther s None \<Rightarrow> S ''slow''
      | JsOther s (Some x) \<Rightarrow> getLatencyClass x)"

text \<open>
  \<open>escapeHtml\<close> assigns its argument to \<open>textContent\<close> of a fresh \<open>div\<close> and reads
  \<open>innerHTML\<close> back. The div then holds one text node, which the HTML fragment
  serialisation writes with \<open>&\<close>, the no-break space, \<open><\<close> and \<open>>\<close> replaced by
  character references, every other code unit unchanged.
\<close>

definition escapeChar :: "16 word \<Rightarrow> js_string" where
  "escapeChar c =
     (if c = 0x26 then S ''&amp;''
      else if c = 0xA0 then S ''&nbsp;''
      else if c = 0x3C then S ''&lt;''
      else if c = 0x3E then S ''&gt;''
      else [c])"

definition escapeHtml :: "js_string \<Rightarrow> js_string" where
  "escapeHtml t = concat (map escapeChar t)"

text \<open>
  Assigning \<open>undefined\<close> to \<open>textContent\<close> empties the node, as the empty string does.
\<close>

definition textContentValue :: "js_string option \<Rightarrow> js_string" where
  "textContentValue v = (case v of None \<Rightarrow> [] | Some t \<Rightarrow> t)"

subsection \<open>The document\<close>

text \<open>
  A template literal is kept as the sequence of its pieces: the fixed text of the
  template, an interpolated string value (inserted as it is), an interpolated number
  (written by the number-to-string conversion), a number written by \<open>toFixed(0)\<close>
  (the product it is applied to is a number whatever was received), and the clock
  written by \<open>formatTime(new Date())\<close>; the clock is the time in milliseconds at which the
  handler runs. White space between the tags of a template is left out.
\<close>

datatype piece =
    Lit js_string
  | Str js_string
  | Num real
  | Fixed0 real
  | Time nat

text \<open>
  An element the renderer creates; \<open>elemId\<close> is empty while no id has been assigned.
  Inline styles and scroll positions are not part of the model.
\<close>

record element =
  elemId :: js_string
  className :: js_string
  innerHTML :: "piece list"

text \<open>
  \<open>${v}\<close> for a received value: a number is written by the number-to-string
  conversion, any other value as the string it converts to, unchanged.
\<close>

definition interpolate :: "js_value \<Rightarrow> piece" where
  "interpolate v = (case v of JsNumber x \<Rightarrow> Num x | JsOther s n \<Rightarrow> Str s)"

datatype console_entry = ConsoleWarn js_string js_string

text \<open>
  The renderer's module state: the socket (\<open>None\<close> while \<open>ws\<close> is null) with the
  frames handed to \<open>ws.send\<close>, the children of the two containers, the properties of
  the status and latency indicators the code assigns, and the console.
\<close>

record renderer =
  ws :: "readyState option"
  wsSent :: "js_string list"
  transcriptContainer :: "element list"
  responseContainer :: "element list"
  statusIndicator_className :: js_string
  statusText_textContent :: js_string
  latencyIndicator_textContent :: "piece list"
  latencyIndicator_className :: js_string
  console :: "console_entry list"

text \<open>
  \<open>document.getElementById\<close>: the position of the first element with the id. The
  renderer assigns an id to elements of the transcript container only, so the search
  runs over its children. A container is the list of its element children, oldest first.
\<close>

fun getElementById :: "js_string \<Rightarrow> element list \<Rightarrow> nat option" where
  "getElementById i [] = None"
| "getElementById i (e # es) =
     (if elemId e = i then Some 0 else map_option Suc (getElementById i es))"

definition removeAt :: "nat \<Rightarrow> 'a list \<Rightarrow> 'a list" where
  "removeAt i xs = take i xs @ drop (Suc i) xs"

subsection \<open>Message handlers\<close>

definition updateStatus :: "js_string \<Rightarrow> js_string \<Rightarrow> renderer \<Rightarrow> renderer" where
  "updateStatus st txt r =
     r\<lparr>statusIndicator_className := S ''status-dot '' @ st,
       statusText_textContent := txt\<rparr>"

definition updateLatency :: "js_value \<Rightarrow> renderer \<Rightarrow> renderer" where
  "updateLatency latencyMs r =
     r\<lparr>latencyIndicator_textContent := [interpolate latencyMs, Lit (S ''ms'')],
       latencyIndicator_className :=
         S ''latency-value '' @ getLatencyClass_value latencyMs\<rparr>"

definition handleStatus :: "msg_data \<Rightarrow> renderer \<Rightarrow> renderer" where
  "handleStatus d r =
     updateStatus (status d)
       (case message d of
          None \<Rightarrow> status d
        | Some m \<Rightarrow> if m = [] then status d else m) r"

definition finalHtml :: "nat \<Rightarrow> js_string \<Rightarrow> real \<Rightarrow> piece list" where
  "finalHtml now t conf =
     [Lit (S ''<div class=\"transcript-text\">''), Str (escapeHtml t), Lit (S ''</div>''),
      Lit (S ''<div class=\"transcript-meta\">''),
      Lit (S ''<span class=\"confidence\">Confidence: ''), Fixed0 (conf * 100),
      Lit (S ''%</span>''),
      Lit (S ''<span class=\"timestamp\">''), Time now, Lit (S ''</span>''),
      Lit (S ''</div>'')]"

definition interimHtml :: "js_string \<Rightarrow> piece list" where
  "interimHtml t =
     [Lit (S ''<div class=\"transcript-text\">''), Str (escapeHtml t), Lit (S ''</div>''),
      Lit (S ''<div class=\"transcript-meta\">''),
      Lit (S ''<span class=\"interim-label\">Interim...</span>''),
      Lit (S ''</div>'')]"

definition handleTranscript :: "nat \<Rightarrow> msg_data \<Rightarrow> renderer \<Rightarrow> renderer" where
  "handleTranscript now d r =
     (case text d of
        None \<Rightarrow> r
      | Some t \<Rightarrow>
          if t = [] \<or> trim t = [] then r
          else
            let transcriptEl = getElementById (S ''interim-transcript'') (transcriptContainer r)
            in if is_final d then
                 let c1 = (case transcriptEl of
                             Some i \<Rightarrow> removeAt i (transcriptContainer r)
                           | None \<Rightarrow> transcriptContainer r);
                     finalEl = \<lparr>elemId = [], className = S ''transcript-item final'',
                                innerHTML = finalHtml now t (confidence d)\<rparr>;
                     c2 = c1 @ [finalEl]
                 in r\<lparr>transcriptContainer := limitChildren 20 c2\<rparr>
               else
                 let c1 = (case transcriptEl of
                             None \<Rightarrow> transcriptContainer r @
                                      [\<lparr>elemId = S ''interim-transcript'',
                                        className = S ''transcript-item interim'',
                                        innerHTML = []\<rparr>]
                           | Some i \<Rightarrow> transcriptContainer r);
                     i = (case transcriptEl of
                            None \<Rightarrow> length (transcriptContainer r)
                          | Some i \<Rightarrow> i)
                 in r\<lparr>transcriptContainer := c1[i := (c1 ! i)\<lparr>innerHTML := interimHtml t\<rparr>]\<rparr>)"

definition responseHtml :: "nat \<Rightarrow> msg_data \<Rightarrow> piece list" where
  "responseHtml now d =
     [Lit (S ''<div class=\"response-header\">''),
      Lit (S ''<span class=\"response-icon\">'' @ [0xD83E, 0xDD16] @ S ''</span>''),
      Lit (S ''<span class=\"response-time\">''), Time now, Lit (S ''</span>''),
      Lit (S ''</div>''),
      Lit (S ''<div class=\"response-text\">''),
      Str (escapeHtml (textContentValue (text d))), Lit (S ''</div>'')]
     @ (case context d of
          None \<Rightarrow> []
        | Some c \<Rightarrow>
            if c = [] then []
            else [Lit (S ''<div class=\"response-context\">Context: ''), Str (escapeHtml c),
                  Lit (S ''</div>'')])
     @ [Lit (S ''<div class=\"response-footer\">''),
        Lit (S ''<span class=\"latency ''), Str (getLatencyClass_value (latency_ms d)),
        Lit (S ''\">''),
        Lit ([0x26A1] @ S '' ''), interpolate (latency_ms d), Lit (S ''ms''),
        Lit (S ''</span>''),
        Lit (S ''</div>'')]"

definition handleResponse :: "nat \<Rightarrow> msg_data \<Rightarrow> renderer \<Rightarrow> renderer" where
  "handleResponse now d r =
     (let responseEl = \<lparr>elemId = [], className = S ''response-card'',
                         innerHTML = responseHtml now d\<rparr>;
          r1 = r\<lparr>responseContainer := responseContainer r @ [responseEl]\<rparr>;
          r2 = updateLatency (latency_ms d) r1
      in r2\<lparr>responseContainer := limitChildren 10 (responseContainer r2)\<rparr>)"

definition handleMessage :: "nat \<Rightarrow> ws_message \<Rightarrow> renderer \<Rightarrow> renderer" where
  "handleMessage now m r =
     (if type m = S ''transcript'' then handleTranscript now (data m) r
      else if type m = S ''response'' then handleResponse now (data m) r
      else if type m = S ''status'' then handleStatus (data m) r
      else r\<lparr>console := console r @ [ConsoleWarn (S ''Unknown message type:'') (type m)]\<rparr>)"

text \<open>The messages of a connection, each with the clock at its arrival, in order.\<close>

fun handleMessages :: "(nat \<times> ws_message) list \<Rightarrow> renderer \<Rightarrow> renderer" where
  "handleMessages [] r = r"
| "handleMessages ((now, m) # ms) r = handleMessages ms (handleMessage now m r)"

subsection \<open>The clear button and the heartbeat\<close>

definition clearClick :: "renderer \<Rightarrow> renderer" where
  "clearClick r =
     (let r1 = r\<lparr>transcriptContainer := [], responseContainer := []\<rparr>
      in if ws r1 = Some OPEN
         then r1\<lparr>wsSent := wsSent r1 @ [S ''{\"type\":\"clear_context\"}'']\<rparr>
         else r1)"

text \<open>
  The callback of \<open>setInterval(..., 30000)\<close>, and the period of the interval in
  milliseconds. The timer runs the callback once per period.
\<close>

definition heartbeatPeriodMs :: nat where
  "heartbeatPeriodMs = 30000"

definition heartbeat :: "renderer \<Rightarrow> renderer" where
  "heartbeat r =
     (if ws r = Some OPEN
      then r\<lparr>wsSent := wsSent r @ [S ''{\"type\":\"ping\"}'']\<rparr>
      else r)"

text \<open>
  The timer over a stretch of time: the \<open>k\<close>-th element of the list is the state of the
  socket when the callback runs for the \<open>k\<close>-th time, \<open>k\<close> periods after the start.
\<close>

fun heartbeatRun :: "readyState option list \<Rightarrow> renderer \<Rightarrow> renderer" where
  "heartbeatRun [] r = r"
| "heartbeatRun (st # sts) r = heartbeatRun sts (heartbeat (r\<lparr>ws := st\<rparr>))"

section \<open>The React prompter\<close>

text \<open>
  The component state of \<open>StealthPrompter\<close>: the \<open>useState\<close> cells, the socket behind
  \<open>wsRef\<close> with the frames handed to its \<open>send\<close>, whether \<open>navigator\<close> has
  \<open>vibrate\<close>, the vibrations requested, and the data objects written to the console.
\<close>

record prompter =
  connected :: bool
  transcripts :: "msg_data list"
  hints :: "msg_data list"
  currentHint :: "msg_data option"
  interimText :: "js_string option"
  wsRef :: "readyState option"
  wsRefSent :: "js_string list"
  vibrateSupported :: bool
  vibrations :: "nat list"
  statusLog :: "msg_data list"

text \<open>\<open>prev.slice(-n)\<close>: the last \<open>n\<close> elements of an array.\<close>

definition sliceLast :: "nat \<Rightarrow> 'a list \<Rightarrow> 'a list" where
  "sliceLast n xs = drop (length xs - n) xs"

definition handleMessage_prompter :: "ws_message \<Rightarrow> prompter \<Rightarrow> prompter" where
  "handleMessage_prompter m p =
     (if type m = S ''transcript'' then
        (if is_final (data m)
         then p\<lparr>transcripts := sliceLast 10 (transcripts p) @ [data m],
                interimText := Some []\<rparr>
         else p\<lparr>interimText := text (data m)\<rparr>)
      else if type m = S ''hint'' then
        (let p1 = p\<lparr>hints := sliceLast 5 (hints p) @ [data m],
                      currentHint := Some (data m)\<rparr>
         in if vibrateSupported p1 then p1\<lparr>vibrations := vibrations p1 @ [200]\<rparr> else p1)
      else if type m = S ''status'' then p\<lparr>statusLog := statusLog p @ [data m]\<rparr>
      else p)"

fun handleMessages_prompter :: "ws_message list \<Rightarrow> prompter \<Rightarrow> prompter" where
  "handleMessages_prompter [] p = p"
| "handleMessages_prompter (m # ms) p = handleMessages_prompter ms (handleMessage_prompter m p)"

definition clearAll :: "prompter \<Rightarrow> prompter" where
  "clearAll p =
     (let p1 = p\<lparr>transcripts := [], hints := [], currentHint := None, interimText := Some []\<rparr>
      in if wsRef p1 = Some OPEN
         then p1\<lparr>wsRefSent := wsRefSent p1 @ [S ''{\"type\":\"clear_context\"}'']\<rparr>
         else p1)"

text \<open>
  What the component renders from its state: the current-hint panel shows the text and
  the question of \<open>currentHint\<close> when there is one, and the interim box shows
  \<open>interimText\<close> when it is a non-empty string.
\<close>

definition currentHintPanel :: "prompter \<Rightarrow> (js_string option \<times> js_string option) option" where
  "currentHintPanel p = map_option (\<lambda>h. (text h, question h)) (currentHint p)"

definition interimBox :: "prompter \<Rightarrow> js_string option" where
  "interimBox p =
     (case interimText p of
        None \<Rightarrow> None
      | Some t \<Rightarrow> if t = [] then None else Some t)"

section \<open>Properties of the displays used in the statements\<close>

text \<open>
  The code units the HTML parser would read as markup are absent from a string when it
  holds no \<open><\<close> and no \<open>>\<close> and each \<open>&\<close> in it starts one of the four character
  references the serialisation writes.
\<close>

fun ampsEscaped :: "js_string \<Rightarrow> bool" where
  "ampsEscaped [] = True"
| "ampsEscaped (c # cs) =
     (if c = 0x26
      then (take 4 cs = S ''amp;'' \<or> take 5 cs = S ''nbsp;'' \<or> take 3 cs = S ''lt;''
            \<or> take 3 cs = S ''gt;'') \<and> ampsEscaped cs
      else ampsEscaped cs)"

definition wellEscaped :: "js_string \<Rightarrow> bool" where
  "wellEscaped s = (0x3C \<notin> set s \<and> 0x3E \<notin> set s \<and> ampsEscaped s)"

text \<open>
  Reading a text node back: the parser replaces each of the four character references
  by the code unit it names and keeps everything else.
\<close>

function unescapeHtml :: "js_string \<Rightarrow> js_string" where
  "unescapeHtml [] = []"
| "unescapeHtml (c # cs) =
     (if c = 0x26 \<and> take 4 cs = S ''amp;'' then 0x26 # unescapeHtml (drop 4 cs)
      else if c = 0x26 \<and> take 5 cs = S ''nbsp;'' then 0xA0 # unescapeHtml (drop 5 cs)
      else if c = 0x26 \<and> take 3 cs = S ''lt;'' then 0x3C # unescapeHtml (drop 3 cs)
      else if c = 0x26 \<and> take 3 cs = S ''gt;'' then 0x3E # unescapeHtml (drop 3 cs)
      else c # unescapeHtml cs)"
  by pat_completeness auto
termination
  by (relation "measure length") auto

text \<open>
  A document is safe when every interpolated string value in the markup of every child
  of the two containers is well escaped.
\<close>

fun pieceSafe :: "piece \<Rightarrow> bool" where
  "pieceSafe (Str s) = wellEscaped s"
| "pieceSafe (Lit s) = True"
| "pieceSafe (Num x) = True"
| "pieceSafe (Fixed0 x) = True"
| "pieceSafe (Time n) = True"

definition elementSafe :: "element \<Rightarrow> bool" where
  "elementSafe e = list_all pieceSafe (innerHTML e)"

definition domSafe :: "renderer \<Rightarrow> bool" where
  "domSafe r =
     (list_all elementSafe (transcriptContainer r) \<and> list_all elementSafe (responseContainer r))"

text \<open>
  The string values a piece of markup interpolates, in order, and the texts the parser
  reads from them.
\<close>

fun interpolatedStrings :: "piece list \<Rightarrow> js_string list" where
  "interpolatedStrings [] = []"
| "interpolatedStrings (Str s # ps) = s # interpolatedStrings ps"
| "interpolatedStrings (Lit s # ps) = interpolatedStrings ps"
| "interpolatedStrings (Num x # ps) = interpolatedStrings ps"
| "interpolatedStrings (Fixed0 x # ps) = interpolatedStrings ps"
| "interpolatedStrings (Time n # ps) = interpolatedStrings ps"

text \<open>The interim element and the final elements among the transcript children.\<close>

definition isInterim :: "element \<Rightarrow> bool" where
  "isInterim e = (elemId e = S ''interim-transcript'')"

definition interimCount :: "renderer \<Rightarrow> nat" where
  "interimCount r = length (filter isInterim (transcriptContainer r))"

definition finalCount :: "renderer \<Rightarrow> nat" where
  "finalCount r = length (filter (\<lambda>e. \<not> isInterim e) (transcriptContainer r))"

definition rendererBounded :: "renderer \<Rightarrow> bool" where
  "rendererBounded r =
     (finalCount r \<le> 20 \<and> interimCount r \<le> 1 \<and> length (responseContainer r) \<le> 10)"

definition finalElement :: "nat \<Rightarrow> js_string \<Rightarrow> real \<Rightarrow> element" where
  "finalElement now t conf =
     \<lparr>elemId = [], className = S ''transcript-item final'', innerHTML = finalHtml now t conf\<rparr>"

definition interimElement :: "js_string \<Rightarrow> element" where
  "interimElement t =
     \<lparr>elemId = S ''interim-transcript'', className = S ''transcript-item interim'',
      innerHTML = interimHtml t\<rparr>"

definition responseElement :: "nat \<Rightarrow> msg_data \<Rightarrow> element" where
  "responseElement now d =
     \<lparr>elemId = [], className = S ''response-card'', innerHTML = responseHtml now d\<rparr>"

text \<open>A renderer and a prompter that have displayed nothing yet, and sample messages.\<close>

definition emptyRenderer :: renderer where
  "emptyRenderer =
     \<lparr>ws = None, wsSent = [], transcriptContainer = [], responseContainer = [],
      statusIndicator_className = [], statusText_textContent = [],
      latencyIndicator_textContent = [], latencyIndicator_className = [], console = []\<rparr>"

definition emptyPrompter :: prompter where
  "emptyPrompter =
     \<lparr>connected = False, transcripts = [], hints = [], currentHint = None,
      interimText = Some [], wsRef = None, wsRefSent = [], vibrateSupported = False,
      vibrations = [], statusLog = []\<rparr>"

definition transcriptData :: "js_string option \<Rightarrow> bool \<Rightarrow> msg_data" where
  "transcriptData t f =
     \<lparr>text = t, is_final = f, confidence = 0.9, timestamp = 0, question = None,
      context = None, latency_ms = JsNumber 0, status = [], message = None\<rparr>"

definition transcriptMsg :: "js_string \<Rightarrow> bool \<Rightarrow> ws_message" where
  "transcriptMsg t f = \<lparr>type = S ''transcript'', data = transcriptData (Some t) f\<rparr>"

definition hintMsg :: "js_string \<Rightarrow> js_string \<Rightarrow> ws_message" where
  "hintMsg t q =
     \<lparr>type = S ''hint'',
      data = \<lparr>text = Some t, is_final = False, confidence = 0, timestamp = 0,
              question = Some q, context = None, latency_ms = JsNumber 850, status = [],
              message = None\<rparr>\<rparr>"

definition responseMsg :: "js_string \<Rightarrow> js_string \<Rightarrow> ws_message" where
  "responseMsg t c =
     \<lparr>type = S ''response'',
      data = \<lparr>text = Some t, is_final = False, confidence = 0, timestamp = 0,
              question = None, context = Some c, latency_ms = JsNumber 850, status = [],
              message = None\<rparr>\<rparr>"


section \<open>The hint requester and the event hub\<close>

text \<open>
  Modelled from the spec: the liveness timeout of the server (section 4.6, "e.g. 60s"),
  in milliseconds. The server is not part of the sources.
\<close>

definition livenessTimeoutMs :: nat where
  "livenessTimeoutMs = 60000"

text \<open>
  Modelled from the spec: the Hint Requester's concurrency cap (sections 3 and 4.4); the
  requester is not part of the sources. A request is identified by the sequence number
  of the final transcript that triggered it. The state holds the configured cap, the
  requests in flight (the in-flight counter is the length of that list), the provider
  calls issued, the HintEvents produced and the number of warning StatusEvents.
\<close>

record hint_requester =
  cap :: nat
  inFlight :: "nat list"
  providerCalls :: "nat list"
  hintEvents :: "nat list"
  warnings :: nat

text \<open>
  Modelled from the spec: what can happen to the requester, in any interleaving: a
  question triggers a request, the provider answers a request within the timeout, or a
  request fails or times out.
\<close>

datatype hint_input = Trigger nat | ProviderSuccess nat | ProviderFailure nat

text \<open>
  Modelled from the spec: section 4.4. A request is issued only while the in-flight
  counter is below the cap, and is skipped silently otherwise; a success produces a
  HintEvent, a failure or timeout produces a warning StatusEvent and no HintEvent.
\<close>

fun hintStep :: "hint_input \<Rightarrow> hint_requester \<Rightarrow> hint_requester" where
  "hintStep (Trigger q) s =
     (if length (inFlight s) < cap s
      then s\<lparr>inFlight := inFlight s @ [q], providerCalls := providerCalls s @ [q]\<rparr>
      else s)"
| "hintStep (ProviderSuccess q) s =
     (if q \<in> set (inFlight s)
      then s\<lparr>inFlight := remove1 q (inFlight s), hintEvents := hintEvents s @ [q]\<rparr>
      else s)"
| "hintStep (ProviderFailure q) s =
     (if q \<in> set (inFlight s)
      then s\<lparr>inFlight := remove1 q (inFlight s), warnings := warnings s + 1\<rparr>
      else s)"

text \<open>Modelled from the spec: a session's requester runs its inputs in arrival order.\<close>

fun hintRun :: "hint_input list \<Rightarrow> hint_requester \<Rightarrow> hint_requester" where
  "hintRun [] s = s"
| "hintRun (i # is) s = hintRun is (hintStep i s)"

text \<open>Modelled from the spec: a new session's requester, with the cap it is configured with.\<close>

definition newRequester :: "nat \<Rightarrow> hint_requester" where
  "newRequester c = \<lparr>cap = c, inFlight = [], providerCalls = [], hintEvents = [], warnings = 0\<rparr>"

text \<open>
  Modelled from the spec: the events of section 3 as the Event Hub sees them, each with
  its sequence number; the hub is not part of the sources.
\<close>

datatype event_kind = InterimTranscript | FinalTranscript | HintEvent | StatusEvent

record event =
  seq :: nat
  kind :: event_kind
  payload :: js_string

text \<open>
  Modelled from the spec: a Subscriber (section 3) with its bounded outbound queue, the
  events delivered to it so far, in delivery order, and its loss counter.
\<close>

record subscriber =
  queue :: "event list"
  delivered :: "event list"
  lossCounter :: nat

text \<open>
  Modelled from the spec: a session's Event Hub (section 4.5) with the session's
  sequence counter, the capacity of each queue, the subscribers by connection handle,
  and the events broadcast so far.
\<close>

record hub =
  nextSeq :: nat
  capacity :: nat
  subscribers :: "nat \<Rightarrow> subscriber option"
  emitted :: "event list"

text \<open>
  Modelled from the spec: the drop policy of section 4.5. \<open>dropOldestInterim\<close> removes
  the oldest interim TranscriptEvent of a queue, if there is one.
\<close>

fun dropOldestInterim :: "event list \<Rightarrow> event list option" where
  "dropOldestInterim [] = None"
| "dropOldestInterim (e # es) =
     (if kind e = InterimTranscript then Some es
      else map_option (\<lambda>es'. e # es') (dropOldestInterim es))"

text \<open>
  Modelled from the spec: section 4.5. When the queue is full, the oldest interim event
  is dropped; without one, the oldest event is dropped and counted as a loss. Then the
  new event is appended.
\<close>

definition enqueue :: "nat \<Rightarrow> event \<Rightarrow> subscriber \<Rightarrow> subscriber" where
  "enqueue c e s =
     (if length (queue s) < c then s\<lparr>queue := queue s @ [e]\<rparr>
      else (case dropOldestInterim (queue s) of
              Some q \<Rightarrow> s\<lparr>queue := q @ [e]\<rparr>
            | None \<Rightarrow>
                (case queue s of
                   [] \<Rightarrow> s\<lparr>queue := [e]\<rparr>
                 | d # q \<Rightarrow> s\<lparr>queue := q @ [e], lossCounter := lossCounter s + 1\<rparr>)))"

text \<open>
  Modelled from the spec: what can happen to the hub, in any interleaving: an event is
  produced and broadcast, the delivery loop of a subscriber sends the head of its queue,
  a client subscribes, a client is unsubscribed.
\<close>

datatype hub_input = Emit event_kind js_string | Deliver nat | Subscribe nat | Unsubscribe nat

text \<open>
  Modelled from the spec: sections 3 and 4.5. A broadcast stamps the event with the
  session's sequence counter and enqueues it for every current subscriber.
\<close>

fun hubStep :: "hub_input \<Rightarrow> hub \<Rightarrow> hub" where
  "hubStep (Emit k b) h =
     (let e = \<lparr>seq = nextSeq h, kind = k, payload = b\<rparr>
      in h\<lparr>nextSeq := nextSeq h + 1,
           subscribers := (\<lambda>i. map_option (enqueue (capacity h) e) (subscribers h i)),
           emitted := emitted h @ [e]\<rparr>)"
| "hubStep (Deliver i) h =
     (case subscribers h i of
        None \<Rightarrow> h
      | Some s \<Rightarrow>
          (case queue s of
             [] \<Rightarrow> h
           | e # q \<Rightarrow>
               h\<lparr>subscribers :=
                    (subscribers h)(i \<mapsto> s\<lparr>queue := q, delivered := delivered s @ [e]\<rparr>)\<rparr>))"
| "hubStep (Subscribe i) h =
     (case subscribers h i of
        None \<Rightarrow>
          h\<lparr>subscribers :=
               (subscribers h)(i \<mapsto> \<lparr>queue = [], delivered = [], lossCounter = 0\<rparr>)\<rparr>
      | Some s \<Rightarrow> h)"
| "hubStep (Unsubscribe i) h = h\<lparr>subscribers := (subscribers h)(i := None)\<rparr>"

text \<open>Modelled from the spec: a session's hub runs its inputs in arrival order.\<close>

fun hubRun :: "hub_input list \<Rightarrow> hub \<Rightarrow> hub" where
  "hubRun [] h = h"
| "hubRun (i # is) h = hubRun is (hubStep i h)"

text \<open>Modelled from the spec: the hub of a new session, without subscribers.\<close>

definition newHub :: "nat \<Rightarrow> hub" where
  "newHub c = \<lparr>nextSeq = 0, capacity = c, subscribers = (\<lambda>i. None), emitted = []\<rparr>"

text \<open>
  Modelled from the spec: what sections 3 and 5 ask of the events a subscriber holds
  (delivered, then queued): strictly increasing sequence numbers, all below the
  session's counter, and a selection of the events broadcast, in broadcast order.
\<close>

definition inOrder :: "nat \<Rightarrow> event list \<Rightarrow> event list \<Rightarrow> bool" where
  "inOrder n em es =
     (sorted_wrt (<) (map seq es) \<and> list_all (\<lambda>e. seq e < n) es \<and> subseq es em)"

section \<open>Auxiliary facts\<close>

lemma limitChildren_drop: "limitChildren m c = drop (length c - m) c"
proof (induction m c rule: limitChildren.induct)
  case (1 m c)
  show ?case
  proof (cases "length c > m")
    case True
    then have ne: "c \<noteq> []" by auto
    have "limitChildren m c = limitChildren m (tl c)"
      using True by (subst limitChildren.simps) simp
    also have "\<dots> = drop (length (tl c) - m) (tl c)" using 1 True by simp
    also have "\<dots> = drop (length c - m) c"
      using True ne by (cases c) (simp_all add: Suc_diff_le)
    finally show ?thesis .
  next
    case False
    then show ?thesis by (subst limitChildren.simps) simp
  qed
qed

lemma trim_empty_iff: "trim t = [] \<longleftrightarrow> (\<forall>c\<in>set t. isWhiteSpace c)"
proof
  assume "trim t = []"
  then have all: "\<forall>x\<in>set (dropWhile isWhiteSpace t). isWhiteSpace x"
    by (simp add: trim_def dropWhile_eq_Nil_conv)
  have "dropWhile isWhiteSpace t = []"
  proof (rule ccontr)
    assume ne: "dropWhile isWhiteSpace t \<noteq> []"
    then have "\<not> isWhiteSpace (hd (dropWhile isWhiteSpace t))" by (rule hd_dropWhile)
    moreover have "hd (dropWhile isWhiteSpace t) \<in> set (dropWhile isWhiteSpace t)"
      using ne by simp
    ultimately show False using all by blast
  qed
  then show "\<forall>c\<in>set t. isWhiteSpace c" by (simp add: dropWhile_eq_Nil_conv)
next
  assume "\<forall>c\<in>set t. isWhiteSpace c"
  then show "trim t = []" by (auto simp: trim_def dest: set_dropWhileD)
qed

section \<open>Latency classes\<close>

text \<open>
  C7: for every latency \<open>l\<close> in milliseconds, \<open>getLatencyClass\<close> returns "good" exactly
  when \<open>l < 1000\<close>, "ok" exactly when \<open>1000 \<le> l < 2000\<close> and "slow" exactly when
  \<open>l \<ge> 2000\<close>; so a latency is below the two-second target exactly when its class is
  not "slow".
\<close>

theorem getLatencyClass_thresholds:
  "(getLatencyClass l = S ''good'' \<longleftrightarrow> l < 1000)
   \<and> (getLatencyClass l = S ''ok'' \<longleftrightarrow> 1000 \<le> l \<and> l < 2000)
   \<and> (getLatencyClass l = S ''slow'' \<longleftrightarrow> 2000 \<le> l)
   \<and> (l < 2000 \<longleftrightarrow> getLatencyClass l \<noteq> S ''slow'')"
  by (simp add: getLatencyClass_def S_def)

section \<open>Blank transcripts\<close>

text \<open>
  C10: when the text of a transcript message is absent, empty or made of white space
  only, the renderer's \<open>handleTranscript\<close> returns the state it was given: no transcript
  element is created, updated or removed.
\<close>

theorem handleTranscript_blank_unchanged:
  "(case text d of None \<Rightarrow> True | Some t \<Rightarrow> \<forall>c\<in>set t. isWhiteSpace c)
   \<Longrightarrow> handleTranscript now d r = r"
  by (auto simp: handleTranscript_def trim_empty_iff split: option.splits)

theorem handleTranscript_blank_unchanged_witness:
  "(case text (transcriptData (Some [0x20, 0x3000, 0x0A]) True) of
      None \<Rightarrow> True | Some t \<Rightarrow> \<forall>c\<in>set t. isWhiteSpace c)
   \<and> handleTranscript 0 (transcriptData (Some [0x20, 0x3000, 0x0A]) True) emptyRenderer
       = emptyRenderer"
  using handleTranscript_blank_unchanged
          [of "transcriptData (Some [0x20, 0x3000, 0x0A]) True" 0 emptyRenderer]
  by (simp add: transcriptData_def isWhiteSpace_def)

section \<open>Clearing the displays\<close>

text \<open>
  C4: the clear operation of either client empties every displayed collection (the two
  containers of the renderer, which hold the interim element too; the transcripts, the
  hints, the current hint and the interim text of the prompter). It hands exactly one
  \<open>{"type":"clear_context"}\<close> frame to the socket when the socket is in state OPEN, and
  none otherwise.
\<close>

theorem clear_empties_and_notifies:
  "transcriptContainer (clearClick r) = []
   \<and> responseContainer (clearClick r) = []
   \<and> wsSent (clearClick r) =
       wsSent r @ (if ws r = Some OPEN then [S ''{\"type\":\"clear_context\"}''] else [])
   \<and> transcripts (clearAll p) = []
   \<and> hints (clearAll p) = []
   \<and> currentHint (clearAll p) = None
   \<and> interimText (clearAll p) = Some []
   \<and> interimBox (clearAll p) = None
   \<and> wsRefSent (clearAll p) =
       wsRefSent p @ (if wsRef p = Some OPEN then [S ''{\"type\":\"clear_context\"}''] else [])"
  by (simp add: clearClick_def clearAll_def interimBox_def Let_def)

section \<open>The heartbeat\<close>

lemma heartbeatRun_sent:
  "wsSent (heartbeatRun sts r) =
     wsSent r @ replicate (length (filter (\<lambda>st. st = Some OPEN) sts)) (S ''{\"type\":\"ping\"}'')"
  by (induction sts arbitrary: r) (simp_all add: heartbeat_def)

text \<open>
  C6: each run of the heartbeat callback hands exactly one \<open>{"type":"ping"}\<close> frame to
  the socket when the socket is in state OPEN and none otherwise, so over any stretch of
  time the renderer has sent one ping for each period at whose end the socket was open
  and none for the others; the period is 30000 ms, which is below the liveness timeout
  of 60000 ms.
\<close>

theorem heartbeat_pings_when_open:
  "wsSent (heartbeat r) = wsSent r @ (if ws r = Some OPEN then [S ''{\"type\":\"ping\"}''] else [])
   \<and> wsSent (heartbeatRun sts r) =
       wsSent r @ replicate (length (filter (\<lambda>st. st = Some OPEN) sts)) (S ''{\"type\":\"ping\"}'')
   \<and> heartbeatPeriodMs = 30000
   \<and> heartbeatPeriodMs < livenessTimeoutMs"
  by (simp add: heartbeat_def heartbeatRun_sent heartbeatPeriodMs_def livenessTimeoutMs_def)

section \<open>Escaping\<close>

lemma escapeChar_no_lt: "0x3C \<notin> set (escapeChar c)"
  by (simp add: escapeChar_def S_def)

lemma escapeChar_no_gt: "0x3E \<notin> set (escapeChar c)"
  by (simp add: escapeChar_def S_def)

lemma ampsEscaped_escapeChar: "ampsEscaped rest \<Longrightarrow> ampsEscaped (escapeChar c @ rest)"
  by (simp add: escapeChar_def S_def)

lemma unescapeHtml_escapeChar: "unescapeHtml (escapeChar c @ rest) = c # unescapeHtml rest"
  by (simp add: escapeChar_def S_def)

lemma escapeHtml_Cons: "escapeHtml (c # t) = escapeChar c @ escapeHtml t"
  by (simp add: escapeHtml_def)

lemma escapeHtml_no_lt: "0x3C \<notin> set (escapeHtml t)"
  by (induction t) (simp_all add: escapeHtml_def escapeChar_no_lt)

lemma escapeHtml_no_gt: "0x3E \<notin> set (escapeHtml t)"
  by (induction t) (simp_all add: escapeHtml_def escapeChar_no_gt)

lemma ampsEscaped_escapeHtml: "ampsEscaped (escapeHtml t)"
proof (induction t)
  case Nil
  show ?case by (simp add: escapeHtml_def)
next
  case (Cons c t)
  then show ?case by (simp only: escapeHtml_Cons ampsEscaped_escapeChar)
qed

lemma wellEscaped_escapeHtml: "wellEscaped (escapeHtml t)"
  by (simp add: wellEscaped_def escapeHtml_no_lt escapeHtml_no_gt ampsEscaped_escapeHtml)

lemma unescapeHtml_escapeHtml: "unescapeHtml (escapeHtml t) = t"
proof (induction t)
  case Nil
  show ?case by (simp add: escapeHtml_def)
next
  case (Cons c t)
  then show ?case by (simp only: escapeHtml_Cons unescapeHtml_escapeChar)
qed

lemma wellEscaped_getLatencyClass: "wellEscaped (getLatencyClass l)"
  by (simp add: wellEscaped_def getLatencyClass_def S_def)

lemma wellEscaped_slow: "wellEscaped (S ''slow'')"
  by (simp add: wellEscaped_def S_def)

lemma wellEscaped_getLatencyClass_value: "wellEscaped (getLatencyClass_value v)"
  by (simp add: getLatencyClass_value_def wellEscaped_getLatencyClass wellEscaped_slow
      split: js_value.splits option.splits)

lemma list_all_removeAt: "list_all P xs \<Longrightarrow> list_all P (removeAt i xs)"
  by (auto simp: removeAt_def list_all_iff dest: in_set_takeD in_set_dropD)

lemma list_all_limitChildren: "list_all P xs \<Longrightarrow> list_all P (limitChildren m xs)"
  by (auto simp: limitChildren_drop list_all_iff dest: in_set_dropD)

lemma list_all_update: "list_all P xs \<Longrightarrow> P x \<Longrightarrow> list_all P (xs[i := x])"
  using set_update_subset_insert [of xs i x] by (auto simp: list_all_iff)

lemma pieceSafe_finalHtml: "list_all pieceSafe (finalHtml now t conf)"
  by (simp add: finalHtml_def wellEscaped_escapeHtml)

lemma pieceSafe_interimHtml: "list_all pieceSafe (interimHtml t)"
  by (simp add: interimHtml_def wellEscaped_escapeHtml)

lemma pieceSafe_responseHtml:
  "pieceSafe (interpolate (latency_ms d)) \<Longrightarrow> list_all pieceSafe (responseHtml now d)"
  by (simp add: responseHtml_def wellEscaped_escapeHtml wellEscaped_getLatencyClass_value
      split: option.splits)

lemma domSafe_handleTranscript: "domSafe r \<Longrightarrow> domSafe (handleTranscript now d r)"
proof (cases "text d")
  case None
  assume "domSafe r"
  with None show ?thesis by (simp add: handleTranscript_def)
next
  case (Some t)
  assume safe: "domSafe r"
  then have tc: "list_all elementSafe (transcriptContainer r)"
    and rc: "list_all elementSafe (responseContainer r)"
    by (simp_all add: domSafe_def)
  show ?thesis
  proof (cases "t = [] \<or> trim t = []")
    case True
    with Some safe show ?thesis by (auto simp: handleTranscript_def)
  next
    case False
    show ?thesis
    proof (cases "is_final d")
      case True
      have "list_all elementSafe
              (limitChildren 20
                 ((case getElementById (S ''interim-transcript'') (transcriptContainer r) of
                     Some i \<Rightarrow> removeAt i (transcriptContainer r)
                   | None \<Rightarrow> transcriptContainer r)
                  @ [\<lparr>elemId = [], className = S ''transcript-item final'',
                      innerHTML = finalHtml now t (confidence d)\<rparr>]))"
        using tc
        by (intro list_all_limitChildren)
           (simp add: list_all_removeAt elementSafe_def pieceSafe_finalHtml split: option.splits)
      with Some False True rc show ?thesis
        by (simp add: handleTranscript_def domSafe_def Let_def)
    next
      case notfinal: False
      let ?c1 = "(case getElementById (S ''interim-transcript'') (transcriptContainer r) of
                    None \<Rightarrow> transcriptContainer r @
                             [\<lparr>elemId = S ''interim-transcript'',
                               className = S ''transcript-item interim'',
                               innerHTML = []\<rparr>]
                  | Some i \<Rightarrow> transcriptContainer r)"
      have c1: "list_all elementSafe ?c1"
        using tc by (simp add: elementSafe_def split: option.splits)
      have "list_all elementSafe (?c1[i := (?c1 ! i)\<lparr>innerHTML := interimHtml t\<rparr>])" for i
        using c1 by (intro list_all_update) (simp_all add: elementSafe_def pieceSafe_interimHtml)
      with Some False notfinal rc show ?thesis
        by (simp add: handleTranscript_def domSafe_def Let_def)
    qed
  qed
qed


lemma domSafe_handleResponse:
  assumes latency: "pieceSafe (interpolate (latency_ms d))" and safe: "domSafe r"
  shows "domSafe (handleResponse now d r)"
proof -
  have "list_all elementSafe
          (limitChildren 10
             (responseContainer r
              @ [\<lparr>elemId = [], className = S ''response-card'',
                  innerHTML = responseHtml now d\<rparr>]))"
    using safe latency
    by (intro list_all_limitChildren) (simp add: domSafe_def elementSafe_def pieceSafe_responseHtml)
  with safe show ?thesis
    by (simp add: handleResponse_def updateLatency_def domSafe_def Let_def)
qed

lemma domSafe_handleMessage:
  "pieceSafe (interpolate (latency_ms (data m))) \<Longrightarrow> domSafe r
   \<Longrightarrow> domSafe (handleMessage now m r)"
  by (simp add: handleMessage_def domSafe_handleTranscript domSafe_handleResponse)
     (simp add: domSafe_def handleStatus_def updateStatus_def)


text \<open>
  What the handlers interpolate. A final and an interim transcript element interpolate
  one string, the escaped text. A response card interpolates the escaped text, the
  escaped context when there is one, the latency class, and the latency itself when it
  is not a number: that string is inserted as received.
\<close>

lemma interpolatedStrings_finalHtml:
  "interpolatedStrings (finalHtml now t conf) = [escapeHtml t]"
  by (simp add: finalHtml_def)

lemma interpolatedStrings_interimHtml:
  "interpolatedStrings (interimHtml t) = [escapeHtml t]"
  by (simp add: interimHtml_def)


text \<open>
  The texts and contexts are read back as they were sent, and while every latency is a
  number the document holds no string that the parser could read as markup.
\<close>

lemma text_fields_rendered_literally:
  "0x3C \<notin> set (escapeHtml t) \<and> 0x3E \<notin> set (escapeHtml t) \<and> ampsEscaped (escapeHtml t)
   \<and> unescapeHtml (escapeHtml t) = t
   \<and> map unescapeHtml (interpolatedStrings (finalHtml now t conf)) = [t]
   \<and> map unescapeHtml (interpolatedStrings (interimHtml t)) = [t]
   \<and> (latency_ms (data m) = JsNumber x \<and> domSafe r \<longrightarrow> domSafe (handleMessage now m r))"
  by (simp add: escapeHtml_no_lt escapeHtml_no_gt ampsEscaped_escapeHtml
      unescapeHtml_escapeHtml interpolatedStrings_finalHtml interpolatedStrings_interimHtml
      domSafe_handleMessage interpolate_def)




section \<open>The concurrency cap of the hint requester\<close>

lemma hintStep_cap: "cap (hintStep i s) = cap s"
  by (cases i) simp_all

lemma hintRun_cap: "cap (hintRun is s) = cap s"
  by (induction "is" arbitrary: s) (simp_all add: hintStep_cap)

lemma hintStep_bound:
  "length (inFlight s) \<le> cap s \<Longrightarrow> length (inFlight (hintStep i s)) \<le> cap s"
  by (cases i) (auto simp: length_remove1)

lemma hintRun_bound:
  "length (inFlight s) \<le> cap s \<Longrightarrow> length (inFlight (hintRun is s)) \<le> cap s"
proof (induction "is" arbitrary: s)
  case Nil
  then show ?case by simp
next
  case (Cons i "is")
  have "length (inFlight (hintStep i s)) \<le> cap (hintStep i s)"
    using Cons.prems by (simp add: hintStep_bound hintStep_cap)
  then have "length (inFlight (hintRun is (hintStep i s))) \<le> cap (hintStep i s)"
    by (rule Cons.IH)
  then show ?case by (simp add: hintStep_cap)
qed

lemma hintRun_append: "hintRun (is @ js) s = hintRun js (hintRun is s)"
  by (induction "is" arbitrary: s) simp_all

lemma hintStep_skip: "cap s \<le> length (inFlight s) \<Longrightarrow> hintStep (Trigger q) s = s"
  by simp

text \<open>
  C2: for every interleaving of triggers, successes and failures, the number of hint
  requests in flight never exceeds the configured cap; a trigger that arrives when the
  counter equals the cap leaves the requester as it was (no provider call, no HintEvent,
  nothing kept for later), so the rest of the run is the run without that trigger.
\<close>

theorem inFlight_never_exceeds_cap:
  assumes "length (inFlight s) \<le> cap s"
  shows "length (inFlight (hintRun is s)) \<le> cap s
         \<and> cap (hintRun is s) = cap s
         \<and> (length (inFlight (hintRun is s)) = cap s \<longrightarrow>
              hintStep (Trigger q) (hintRun is s) = hintRun is s
              \<and> hintRun (is @ Trigger q # js) s = hintRun (is @ js) s)"
proof -
  have "hintRun (is @ Trigger q # js) s = hintRun (is @ js) s"
    if "length (inFlight (hintRun is s)) = cap s"
  proof -
    have "hintStep (Trigger q) (hintRun is s) = hintRun is s"
      using that by (intro hintStep_skip) (simp add: hintRun_cap)
    then show ?thesis by (simp add: hintRun_append)
  qed
  moreover have "hintStep (Trigger q) (hintRun is s) = hintRun is s"
    if "length (inFlight (hintRun is s)) = cap s"
    using that by (intro hintStep_skip) (simp add: hintRun_cap)
  ultimately show ?thesis
    using assms by (simp add: hintRun_bound hintRun_cap)
qed

theorem inFlight_never_exceeds_cap_witness:
  "length (inFlight (newRequester 1)) \<le> cap (newRequester 1)
   \<and> length (inFlight (hintRun [Trigger 1] (newRequester 1))) = cap (newRequester 1)
   \<and> hintRun ([Trigger 1] @ Trigger 2 # [ProviderSuccess 1, ProviderSuccess 2])
         (newRequester 1)
       = \<lparr>cap = 1, inFlight = [], providerCalls = [1], hintEvents = [1], warnings = 0\<rparr>"
  using inFlight_never_exceeds_cap
          [of "newRequester 1" "[Trigger 1]" 2 "[ProviderSuccess 1, ProviderSuccess 2]"]
  by (simp add: newRequester_def)

section \<open>Delivery order of the event hub\<close>

lemma sorted_wrt_subseq: "subseq xs ys \<Longrightarrow> sorted_wrt R ys \<Longrightarrow> sorted_wrt R xs"
proof (induction rule: list_emb.induct)
  case (list_emb_Nil ys)
  show ?case by simp
next
  case (list_emb_Cons xs ys y)
  then show ?case by simp
next
  case (list_emb_Cons2 x y xs ys)
  then have "set xs \<subseteq> set ys" by (auto dest: list_emb_set)
  with list_emb_Cons2 show ?case by auto
qed

lemma dropOldestInterim_subseq: "dropOldestInterim es = Some q \<Longrightarrow> subseq q es"
  by (induction es arbitrary: q) (auto split: if_splits)

lemma enqueue_shape:
  "\<exists>q. queue (enqueue c e s) = q @ [e] \<and> subseq q (queue s)
       \<and> delivered (enqueue c e s) = delivered s"
proof (cases "length (queue s) < c")
  case True
  then show ?thesis by (simp add: enqueue_def)
next
  case full: False
  show ?thesis
  proof (cases "dropOldestInterim (queue s)")
    case (Some q)
    with full show ?thesis by (simp add: enqueue_def dropOldestInterim_subseq)
  next
    case None
    with full show ?thesis by (cases "queue s") (simp_all add: enqueue_def list_emb_Cons)
  qed
qed

lemma inOrder_enqueue:
  assumes ord: "inOrder n em (delivered s @ queue s)" and e: "seq e = n"
  shows "inOrder (Suc n) (em @ [e]) (delivered (enqueue c e s) @ queue (enqueue c e s))"
proof -
  obtain q where q: "queue (enqueue c e s) = q @ [e]" "subseq q (queue s)"
      "delivered (enqueue c e s) = delivered s"
    using enqueue_shape by blast
  let ?old = "delivered s @ queue s" and ?kept = "delivered s @ q"
  have sub: "subseq ?kept ?old" using q(2) by (simp add: subseq_append')
  have sorted_old: "sorted_wrt (<) (map seq ?old)" and below: "\<forall>x\<in>set ?old. seq x < n"
    and sel: "subseq ?old em"
    using ord by (simp_all add: inOrder_def list_all_iff)
  have "subseq (map seq ?kept) (map seq ?old)" using sub by (rule subseq_map)
  then have sorted_kept: "sorted_wrt (<) (map seq ?kept)"
    using sorted_old by (rule sorted_wrt_subseq)
  have below_kept: "\<forall>x\<in>set ?kept. seq x < n"
    using below sub by (auto dest: list_emb_set)
  have "sorted_wrt (<) (map seq (?kept @ [e]))"
    using sorted_kept below_kept e by (simp add: sorted_wrt_append)
  moreover have "list_all (\<lambda>x. seq x < Suc n) (?kept @ [e])"
    using below_kept e by (auto simp: list_all_iff less_Suc_eq)
  moreover have "subseq (?kept @ [e]) (em @ [e])"
  proof (rule list_emb_append_mono)
    show "subseq ?kept em" using sub sel by (rule subseq_order.order_trans)
    show "subseq [e] [e]" by simp
  qed
  ultimately show ?thesis using q by (simp add: inOrder_def)
qed

lemma inOrder_hubStep:
  assumes inv: "\<And>i s. subscribers h i = Some s
                  \<Longrightarrow> inOrder (nextSeq h) (emitted h) (delivered s @ queue s)"
    and s': "subscribers (hubStep x h) i = Some s'"
  shows "inOrder (nextSeq (hubStep x h)) (emitted (hubStep x h)) (delivered s' @ queue s')"
proof (cases x)
  case (Emit k b)
  with s' obtain s where s: "subscribers h i = Some s"
      and eq: "s' = enqueue (capacity h) \<lparr>seq = nextSeq h, kind = k, payload = b\<rparr> s"
    by (auto simp: Let_def)
  from inv [OF s] show ?thesis
    unfolding eq using Emit by (simp add: Let_def inOrder_enqueue)
next
  case (Deliver j)
  show ?thesis
  proof (cases "subscribers h j")
    case None
    with Deliver s' inv show ?thesis by simp
  next
    case (Some s)
    show ?thesis
    proof (cases "queue s")
      case Nil
      with Deliver Some s' inv show ?thesis by simp
    next
      case (Cons e q)
      show ?thesis
      proof (cases "i = j")
        case True
        with Deliver Some Cons s' have "s' = s\<lparr>queue := q, delivered := delivered s @ [e]\<rparr>"
          by simp
        with inv [OF Some] Cons Deliver Some show ?thesis by simp
      next
        case False
        with Deliver Some Cons s' have "subscribers h i = Some s'" by simp
        from inv [OF this] Deliver Some Cons show ?thesis by simp
      qed
    qed
  qed
next
  case (Subscribe j)
  show ?thesis
  proof (cases "subscribers h j")
    case None
    show ?thesis
    proof (cases "i = j")
      case True
      with Subscribe None s' show ?thesis by (auto simp: inOrder_def)
    next
      case False
      with Subscribe None s' have "subscribers h i = Some s'" by simp
      from inv [OF this] Subscribe None show ?thesis by simp
    qed
  next
    case (Some s)
    with Subscribe s' inv show ?thesis by simp
  qed
next
  case (Unsubscribe j)
  with s' have "subscribers h i = Some s'" by (simp split: if_splits)
  from inv [OF this] Unsubscribe show ?thesis by simp
qed

lemma inOrder_hubRun:
  assumes "\<And>i s. subscribers h i = Some s
             \<Longrightarrow> inOrder (nextSeq h) (emitted h) (delivered s @ queue s)"
    and "subscribers (hubRun xs h) i = Some s'"
  shows "inOrder (nextSeq (hubRun xs h)) (emitted (hubRun xs h)) (delivered s' @ queue s')"
  using assms
proof (induction xs arbitrary: h)
  case Nil
  then show ?case by simp
next
  case (Cons x xs)
  show ?case
    unfolding hubRun.simps
  proof (rule Cons.IH)
    fix j t
    assume "subscribers (hubStep x h) j = Some t"
    with Cons.prems(1)
    show "inOrder (nextSeq (hubStep x h)) (emitted (hubStep x h)) (delivered t @ queue t)"
      by (rule inOrder_hubStep)
  next
    show "subscribers (hubRun xs (hubStep x h)) i = Some s'"
      using Cons.prems(2) by simp
  qed
qed

text \<open>
  C3: for every run of a session's hub and every subscriber, the sequence numbers of the
  events delivered to that subscriber are non-decreasing (they are strictly increasing),
  and the delivered events are a selection of the events broadcast, in broadcast order:
  the drop policy omits events and never reorders them.
\<close>

theorem delivered_in_sequence_order:
  assumes "subscribers (hubRun xs (newHub c)) i = Some s"
  shows "sorted (map seq (delivered s))
         \<and> sorted_wrt (<) (map seq (delivered s))
         \<and> subseq (delivered s) (emitted (hubRun xs (newHub c)))"
proof -
  have "inOrder (nextSeq (hubRun xs (newHub c))) (emitted (hubRun xs (newHub c)))
          (delivered s @ queue s)"
    using _ assms by (rule inOrder_hubRun) (simp add: newHub_def)
  then have strict: "sorted_wrt (<) (map seq (delivered s))"
    and both: "subseq (delivered s @ queue s) (emitted (hubRun xs (newHub c)))"
    by (simp_all add: inOrder_def sorted_wrt_append)
  have "subseq (delivered s) (delivered s @ queue s)"
    by (intro subseq_rev_drop_many) simp
  then have sel: "subseq (delivered s) (emitted (hubRun xs (newHub c)))"
    using both by (rule subseq_order.order_trans)
  from strict have "sorted (map seq (delivered s))" by (rule strict_sorted_imp_sorted)
  with strict sel show ?thesis by simp
qed

theorem delivered_in_sequence_order_witness:
  "subscribers
     (hubRun [Subscribe 7, Emit InterimTranscript [0x61], Emit FinalTranscript [0x62],
              Emit InterimTranscript [0x63], Deliver 7, Deliver 7, Deliver 7] (newHub 2)) 7
   = Some \<lparr>queue = [],
           delivered = [\<lparr>seq = 1, kind = FinalTranscript, payload = [0x62]\<rparr>,
                        \<lparr>seq = 2, kind = InterimTranscript, payload = [0x63]\<rparr>],
           lossCounter = 0\<rparr>
   \<and> sorted (map seq [\<lparr>seq = 1, kind = FinalTranscript, payload = [0x62]\<rparr>,
                       \<lparr>seq = 2, kind = InterimTranscript, payload = [0x63::16 word]\<rparr>])"
proof -
  have run: "subscribers
     (hubRun [Subscribe 7, Emit InterimTranscript [0x61], Emit FinalTranscript [0x62],
              Emit InterimTranscript [0x63], Deliver 7, Deliver 7, Deliver 7] (newHub 2)) 7
   = Some \<lparr>queue = [],
           delivered = [\<lparr>seq = 1, kind = FinalTranscript, payload = [0x62]\<rparr>,
                        \<lparr>seq = 2, kind = InterimTranscript, payload = [0x63]\<rparr>],
           lossCounter = 0\<rparr>"
    by code_simp
  have "sorted (map seq (delivered \<lparr>queue = [],
           delivered = [\<lparr>seq = 1, kind = FinalTranscript, payload = [0x62]\<rparr>,
                        \<lparr>seq = 2, kind = InterimTranscript, payload = [0x63::16 word]\<rparr>],
           lossCounter = 0\<rparr>))"
    using delivered_in_sequence_order [OF run] by (rule conjunct1)
  then have "sorted (map seq [\<lparr>seq = 1, kind = FinalTranscript, payload = [0x62]\<rparr>,
                       \<lparr>seq = 2, kind = InterimTranscript, payload = [0x63::16 word]\<rparr>])"
    by simp
  with run show ?thesis by (rule conjI)
qed

section \<open>How the renderer's transcript handler changes the container\<close>

lemma getElementById_None_iff:
  "getElementById i es = None \<longleftrightarrow> (\<forall>e\<in>set es. elemId e \<noteq> i)"
  by (induction es) auto

lemma getElementById_Some_D:
  "getElementById i es = Some k \<Longrightarrow> k < length es \<and> elemId (es ! k) = i"
  by (induction es arbitrary: k) (auto split: if_splits)

lemma no_interim_filter:
  assumes "getElementById (S ''interim-transcript'') es = None"
  shows "filter isInterim es = []" and "filter (\<lambda>e. \<not> isInterim e) es = es"
  using assms by (simp_all add: getElementById_None_iff isInterim_def)

lemma removeAt_Suc: "removeAt (Suc i) (e # es) = e # removeAt i es"
  by (simp add: removeAt_def)

lemma removeAt_interim:
  "getElementById (S ''interim-transcript'') es = Some i
   \<Longrightarrow> length (filter isInterim es) \<le> 1
   \<Longrightarrow> removeAt i es = filter (\<lambda>e. \<not> isInterim e) es"
proof (induction es arbitrary: i)
  case Nil
  then show ?case by simp
next
  case (Cons e es)
  show ?case
  proof (cases "isInterim e")
    case True
    from Cons.prems(1) True have "i = 0" by (simp add: isInterim_def)
    from Cons.prems(2) True have "filter isInterim es = []" by simp
    then have "filter (\<lambda>e. \<not> isInterim e) es = es"
      by (simp add: filter_empty_conv)
    with True \<open>i = 0\<close> show ?thesis by (simp add: removeAt_def)
  next
    case False
    with Cons.prems(1) obtain j where j: "i = Suc j"
        "getElementById (S ''interim-transcript'') es = Some j"
      by (auto simp: isInterim_def)
    from Cons.prems False have "length (filter isInterim es) \<le> 1"
      by simp
    with j have "removeAt j es = filter (\<lambda>e. \<not> isInterim e) es" by (intro Cons.IH)
    with False j show ?thesis by (simp add: removeAt_Suc)
  qed
qed

lemma length_filter_update:
  "i < length xs \<Longrightarrow> P x = P (xs ! i)
   \<Longrightarrow> length (filter P (xs[i := x])) = length (filter P xs)"
  by (induction xs arbitrary: i) (auto split: nat.splits)

lemma limitChildren_sliceLast: "limitChildren n xs = sliceLast n xs"
  by (simp add: limitChildren_drop sliceLast_def)

lemma length_sliceLast: "length (sliceLast n xs) \<le> n"
  by (simp add: sliceLast_def)

lemma set_sliceLast: "set (sliceLast n xs) \<subseteq> set xs"
  by (simp add: sliceLast_def set_drop_subset)

lemma handleTranscript_guard:
  "text d = None \<or> (\<exists>t. text d = Some t \<and> (\<forall>c\<in>set t. isWhiteSpace c))
   \<Longrightarrow> handleTranscript now d r = r"
  by (auto simp: handleTranscript_def trim_empty_iff split: option.splits)

lemma nonblank_guard:
  "\<exists>c\<in>set t. \<not> isWhiteSpace c \<Longrightarrow> \<not> (t = [] \<or> trim t = [])"
  by (auto simp: trim_empty_iff)

lemma handleTranscript_final:
  assumes "text d = Some t" and "\<exists>c\<in>set t. \<not> isWhiteSpace c" and "is_final d"
  shows "handleTranscript now d r =
           r\<lparr>transcriptContainer :=
               sliceLast 20
                 ((case getElementById (S ''interim-transcript'') (transcriptContainer r) of
                     Some i \<Rightarrow> removeAt i (transcriptContainer r)
                   | None \<Rightarrow> transcriptContainer r)
                  @ [finalElement now t (confidence d)])\<rparr>"
  using assms(1,3) nonblank_guard [OF assms(2)]
  by (simp add: handleTranscript_def Let_def finalElement_def limitChildren_sliceLast)

lemma handleTranscript_interim_new:
  assumes "text d = Some t" and "\<exists>c\<in>set t. \<not> isWhiteSpace c" and "\<not> is_final d"
    and "getElementById (S ''interim-transcript'') (transcriptContainer r) = None"
  shows "handleTranscript now d r =
           r\<lparr>transcriptContainer := transcriptContainer r @ [interimElement t]\<rparr>"
  using assms(1,3,4) nonblank_guard [OF assms(2)]
  by (simp add: handleTranscript_def Let_def interimElement_def)

lemma handleTranscript_interim_update:
  assumes "text d = Some t" and "\<exists>c\<in>set t. \<not> isWhiteSpace c" and "\<not> is_final d"
    and "getElementById (S ''interim-transcript'') (transcriptContainer r) = Some i"
  shows "handleTranscript now d r =
           r\<lparr>transcriptContainer :=
               (transcriptContainer r)
                 [i := (transcriptContainer r ! i)\<lparr>innerHTML := interimHtml t\<rparr>]\<rparr>"
  using assms(1,3,4) nonblank_guard [OF assms(2)]
  by (simp add: handleTranscript_def Let_def)

lemma handleTranscript_final_one_interim:
  assumes "text d = Some t" and "\<exists>c\<in>set t. \<not> isWhiteSpace c" and "is_final d"
    and "interimCount r \<le> 1"
  shows "transcriptContainer (handleTranscript now d r) =
           sliceLast 20 (filter (\<lambda>e. \<not> isInterim e) (transcriptContainer r)
                         @ [finalElement now t (confidence d)])"
proof (cases "getElementById (S ''interim-transcript'') (transcriptContainer r)")
  case None
  then show ?thesis
    by (simp add: handleTranscript_final [OF assms(1-3)] no_interim_filter)
next
  case (Some i)
  with assms(4) have "removeAt i (transcriptContainer r)
      = filter (\<lambda>e. \<not> isInterim e) (transcriptContainer r)"
    by (intro removeAt_interim) (simp_all add: interimCount_def)
  with Some show ?thesis
    by (simp add: handleTranscript_final [OF assms(1-3)])
qed

lemma not_interim_finalElement: "\<not> isInterim (finalElement now t conf)"
  by (simp add: isInterim_def finalElement_def S_def)

lemma isInterim_interimElement: "isInterim (interimElement t)"
  by (simp add: isInterim_def interimElement_def)

lemma no_interim_after_final:
  assumes "text d = Some t" and "\<exists>c\<in>set t. \<not> isWhiteSpace c" and "is_final d"
    and "interimCount r \<le> 1"
  shows "interimCount (handleTranscript now d r) = 0"
proof -
  let ?kept = "filter (\<lambda>e. \<not> isInterim e) (transcriptContainer r)
                 @ [finalElement now t (confidence d)]"
  have tc: "transcriptContainer (handleTranscript now d r) = sliceLast 20 ?kept"
    using assms by (rule handleTranscript_final_one_interim)
  have "\<forall>e\<in>set ?kept. \<not> isInterim e"
    by (simp add: not_interim_finalElement)
  moreover have "set (sliceLast 20 ?kept) \<subseteq> set ?kept" by (rule set_sliceLast)
  ultimately have "\<forall>e\<in>set (sliceLast 20 ?kept). \<not> isInterim e" by blast
  then have "filter isInterim (sliceLast 20 ?kept) = []"
    by (simp only: filter_empty_conv)
  then show ?thesis by (simp only: interimCount_def tc list.size)
qed

lemma counts_handleTranscript:
  assumes "interimCount r \<le> 1"
  shows "interimCount (handleTranscript now d r) \<le> 1
         \<and> (finalCount r \<le> 20 \<longrightarrow> finalCount (handleTranscript now d r) \<le> 20)"
proof (cases "text d = None \<or> (\<exists>t. text d = Some t \<and> (\<forall>c\<in>set t. isWhiteSpace c))")
  case True
  then have "handleTranscript now d r = r" by (rule handleTranscript_guard)
  with assms show ?thesis by simp
next
  case False
  then obtain t where t: "text d = Some t" "\<exists>c\<in>set t. \<not> isWhiteSpace c" by auto
  show ?thesis
  proof (cases "is_final d")
    case True
    have "interimCount (handleTranscript now d r) = 0"
      using t True assms by (rule no_interim_after_final)
    moreover have "finalCount (handleTranscript now d r)
        \<le> length (transcriptContainer (handleTranscript now d r))"
      by (simp add: finalCount_def)
    moreover have "length (transcriptContainer (handleTranscript now d r)) \<le> 20"
      by (simp add: handleTranscript_final_one_interim [OF t True assms] length_sliceLast)
    ultimately show ?thesis by simp
  next
    case notfinal: False
    show ?thesis
    proof (cases "getElementById (S ''interim-transcript'') (transcriptContainer r)")
      case None
      with assms show ?thesis
        by (simp add: handleTranscript_interim_new [OF t notfinal None] interimCount_def
            finalCount_def no_interim_filter isInterim_interimElement)
    next
      case (Some i)
      then have i: "i < length (transcriptContainer r)"
          "isInterim (transcriptContainer r ! i)"
        by (auto simp: isInterim_def dest: getElementById_Some_D)
      have same: "isInterim ((transcriptContainer r ! i)\<lparr>innerHTML := interimHtml t\<rparr>)
          = isInterim (transcriptContainer r ! i)"
        by (simp add: isInterim_def)
      have "length (filter isInterim ((transcriptContainer r)
               [i := (transcriptContainer r ! i)\<lparr>innerHTML := interimHtml t\<rparr>]))
            = length (filter isInterim (transcriptContainer r))"
        using i(1) same by (rule length_filter_update)
      moreover have "length (filter (\<lambda>e. \<not> isInterim e) ((transcriptContainer r)
               [i := (transcriptContainer r ! i)\<lparr>innerHTML := interimHtml t\<rparr>]))
            = length (filter (\<lambda>e. \<not> isInterim e) (transcriptContainer r))"
        using i(1) same by (intro length_filter_update) simp_all
      ultimately show ?thesis
        using assms
        by (simp add: handleTranscript_interim_update [OF t notfinal Some] interimCount_def
            finalCount_def)
    qed
  qed
qed

section \<open>Bounds on what the clients retain\<close>

lemma interimCount_handleMessage:
  assumes "interimCount r \<le> 1"
  shows "interimCount (handleMessage now m r) \<le> 1"
  using assms counts_handleTranscript [of r now "data m"]
  by (simp add: handleMessage_def)
     (simp add: interimCount_def handleResponse_def updateLatency_def handleStatus_def
        updateStatus_def Let_def)

lemma interimCount_handleMessages:
  "interimCount r \<le> 1 \<Longrightarrow> interimCount (handleMessages ms r) \<le> 1"
proof (induction ms arbitrary: r)
  case Nil
  then show ?case by simp
next
  case (Cons x ms)
  obtain now m where x: "x = (now, m)" by (cases x)
  from Cons.prems have "interimCount (handleMessage now m r) \<le> 1"
    by (rule interimCount_handleMessage)
  then have "interimCount (handleMessages ms (handleMessage now m r)) \<le> 1" by (rule Cons.IH)
  with x show ?case by simp
qed

lemma handleResponse_container:
  "responseContainer (handleResponse now d r)
     = sliceLast 10 (responseContainer r @ [responseElement now d])"
  by (simp add: handleResponse_def updateLatency_def Let_def responseElement_def
      limitChildren_sliceLast)

lemma handleResponse_transcripts:
  "transcriptContainer (handleResponse now d r) = transcriptContainer r"
  by (simp add: handleResponse_def updateLatency_def Let_def)

lemma handleStatus_containers:
  "transcriptContainer (handleStatus d r) = transcriptContainer r
   \<and> responseContainer (handleStatus d r) = responseContainer r"
  by (simp add: handleStatus_def updateStatus_def)

lemma handleTranscript_responses:
  "responseContainer (handleTranscript now d r) = responseContainer r"
  by (simp add: handleTranscript_def Let_def split: option.splits)

lemma rendererBounded_handleMessage:
  assumes "rendererBounded r"
  shows "rendererBounded (handleMessage now m r)"
proof -
  consider (transcript) "type m = S ''transcript''"
    | (response) "type m \<noteq> S ''transcript''" "type m = S ''response''"
    | (status) "type m \<noteq> S ''transcript''" "type m \<noteq> S ''response''" "type m = S ''status''"
    | (unknown) "type m \<noteq> S ''transcript''" "type m \<noteq> S ''response''" "type m \<noteq> S ''status''"
    by blast
  then show ?thesis
  proof cases
    case transcript
    with assms counts_handleTranscript [of r now "data m"] show ?thesis
      by (simp add: rendererBounded_def handleMessage_def handleTranscript_responses)
  next
    case response
    with assms show ?thesis
      by (simp add: rendererBounded_def handleMessage_def finalCount_def interimCount_def
          handleResponse_transcripts handleResponse_container length_sliceLast)
  next
    case status
    with assms show ?thesis
      by (simp add: rendererBounded_def handleMessage_def finalCount_def interimCount_def
          handleStatus_containers)
  next
    case unknown
    with assms show ?thesis
      by (simp add: rendererBounded_def handleMessage_def finalCount_def interimCount_def)
  qed
qed

lemma rendererBounded_handleMessages:
  "rendererBounded r \<Longrightarrow> rendererBounded (handleMessages ms r)"
proof (induction ms arbitrary: r)
  case Nil
  then show ?case by simp
next
  case (Cons x ms)
  obtain now m where x: "x = (now, m)" by (cases x)
  from Cons.prems have "rendererBounded (handleMessage now m r)"
    by (rule rendererBounded_handleMessage)
  then have "rendererBounded (handleMessages ms (handleMessage now m r))" by (rule Cons.IH)
  with x show ?case by simp
qed

lemma length_transcriptContainer:
  "length (transcriptContainer r) = interimCount r + finalCount r"
  by (simp add: interimCount_def finalCount_def sum_length_filter_compl)

lemma sliceLast_snoc: "sliceLast n xs @ [x] = sliceLast (Suc n) (xs @ [x])"
  by (simp add: sliceLast_def)

lemma prompter_lengths_step:
  assumes "length (transcripts p) \<le> 11" and "length (hints p) \<le> 6"
  shows "length (transcripts (handleMessage_prompter m p)) \<le> 11
         \<and> length (hints (handleMessage_prompter m p)) \<le> 6"
  using assms length_sliceLast [of 10 "transcripts p"] length_sliceLast [of 5 "hints p"]
  by (simp add: handleMessage_prompter_def Let_def)

lemma prompter_lengths_run:
  "length (transcripts p) \<le> 11 \<Longrightarrow> length (hints p) \<le> 6
   \<Longrightarrow> length (transcripts (handleMessages_prompter ms p)) \<le> 11
       \<and> length (hints (handleMessages_prompter ms p)) \<le> 6"
proof (induction ms arbitrary: p)
  case Nil
  then show ?case by simp
next
  case (Cons m ms)
  from Cons.prems have "length (transcripts (handleMessage_prompter m p)) \<le> 11
      \<and> length (hints (handleMessage_prompter m p)) \<le> 6"
    by (rule prompter_lengths_step)
  then show ?case by (simp add: Cons.IH)
qed

lemma handleMessages_append:
  "handleMessages (xs @ ys) r = handleMessages ys (handleMessages xs r)"
  by (induction xs arbitrary: r) auto

lemma nonblank_a: "\<exists>c\<in>set (S ''a''). \<not> isWhiteSpace c"
  by (simp add: S_def isWhiteSpace_def)

lemma nonblank_b: "\<exists>c\<in>set (S ''b''). \<not> isWhiteSpace c"
  by (simp add: S_def isWhiteSpace_def)

lemma no_interim_among_finals:
  "getElementById (S ''interim-transcript'') (replicate k (finalElement now t conf)) = None"
  by (simp add: getElementById_None_iff finalElement_def S_def)

lemma handleMessage_transcriptMsg:
  "handleMessage now (transcriptMsg t f) r = handleTranscript now (transcriptData (Some t) f) r"
  by (simp add: handleMessage_def transcriptMsg_def)

lemma finals_fill:
  assumes "\<exists>c\<in>set t. \<not> isWhiteSpace c"
  shows "k + n \<le> 20 \<Longrightarrow> transcriptContainer r = replicate k (finalElement now t 0.9)
         \<Longrightarrow> transcriptContainer (handleMessages (replicate n (now, transcriptMsg t True)) r)
             = replicate (k + n) (finalElement now t 0.9)"
proof (induction n arbitrary: r k)
  case 0
  then show ?case by simp
next
  case (Suc n)
  let ?r = "handleMessage now (transcriptMsg t True) r"
  have "handleTranscript now (transcriptData (Some t) True) r =
           r\<lparr>transcriptContainer :=
               sliceLast 20
                 ((case getElementById (S ''interim-transcript'') (transcriptContainer r) of
                     Some i \<Rightarrow> removeAt i (transcriptContainer r)
                   | None \<Rightarrow> transcriptContainer r)
                  @ [finalElement now t (confidence (transcriptData (Some t) True))])\<rparr>"
    using _ assms by (rule handleTranscript_final) (simp_all add: transcriptData_def)
  then have "transcriptContainer ?r
      = sliceLast 20 (replicate k (finalElement now t 0.9) @ [finalElement now t 0.9])"
    using Suc.prems(2)
    by (simp add: handleMessage_transcriptMsg no_interim_among_finals)
       (simp add: transcriptData_def)
  also have "\<dots> = replicate (Suc k) (finalElement now t 0.9)"
    using Suc.prems(1) by (simp add: sliceLast_def replicate_append_same)
  finally have "transcriptContainer ?r = replicate (Suc k) (finalElement now t 0.9)" .
  moreover have "Suc k + n \<le> 20" using Suc.prems(1) by simp
  ultimately have "transcriptContainer (handleMessages (replicate n (now, transcriptMsg t True)) ?r)
      = replicate (Suc k + n) (finalElement now t 0.9)"
    by (rule Suc.IH [rotated])
  then show ?case by simp
qed

text \<open>
  C9, counterexample: after twenty final transcripts and one interim transcript the
  transcript container of the renderer holds 21 transcript elements.
\<close>

theorem renderer_holds_21_transcript_elements:
  "length (transcriptContainer
     (handleMessages (replicate 20 (0, transcriptMsg (S ''a'') True)
                      @ [(0, transcriptMsg (S ''b'') False)]) emptyRenderer)) = 21
   \<and> \<not> length (transcriptContainer
     (handleMessages (replicate 20 (0, transcriptMsg (S ''a'') True)
                      @ [(0, transcriptMsg (S ''b'') False)]) emptyRenderer)) \<le> 20"
proof -
  let ?r20 = "handleMessages (replicate 20 (0, transcriptMsg (S ''a'') True)) emptyRenderer"
  have r20: "transcriptContainer ?r20 = replicate (0 + 20) (finalElement 0 (S ''a'') 0.9)"
    using nonblank_a by (rule finals_fill) (simp_all add: emptyRenderer_def)
  have "handleTranscript 0 (transcriptData (Some (S ''b'')) False) ?r20
      = ?r20\<lparr>transcriptContainer := transcriptContainer ?r20 @ [interimElement (S ''b'')]\<rparr>"
    using _ nonblank_b
    by (rule handleTranscript_interim_new)
       (simp_all add: transcriptData_def r20 no_interim_among_finals)
  then have "transcriptContainer (handleMessage 0 (transcriptMsg (S ''b'') False) ?r20)
      = transcriptContainer ?r20 @ [interimElement (S ''b'')]"
    by (simp add: handleMessage_transcriptMsg)
  then have "length (transcriptContainer
     (handleMessages (replicate 20 (0, transcriptMsg (S ''a'') True)
                      @ [(0, transcriptMsg (S ''b'') False)]) emptyRenderer)) = 21"
    by (simp add: handleMessages_append r20)
  then show ?thesis by simp
qed

text \<open>
  C9, as amended: for every sequence of incoming messages the prompter keeps at most 11
  final transcripts and at most 6 hints, and the renderer keeps at most 20 final
  transcript elements, at most one interim element beside them (at most 21 transcript
  elements in all) and at most 10 response cards. Each collection drops its oldest
  entries: it holds the most recent entries of the old collection followed by the new one.
\<close>

theorem retained_items_bounded:
  assumes "finalCount r \<le> 20" and "interimCount r \<le> 1"
    and "length (responseContainer r) \<le> 10"
    and "length (transcripts p) \<le> 11" and "length (hints p) \<le> 6"
  shows "finalCount (handleMessages ms r) \<le> 20
         \<and> interimCount (handleMessages ms r) \<le> 1
         \<and> length (transcriptContainer (handleMessages ms r)) \<le> 21
         \<and> length (responseContainer (handleMessages ms r)) \<le> 10
         \<and> length (transcripts (handleMessages_prompter ps p)) \<le> 11
         \<and> length (hints (handleMessages_prompter ps p)) \<le> 6
         \<and> responseContainer (handleResponse now d r)
             = sliceLast 10 (responseContainer r @ [responseElement now d])
         \<and> (is_final d \<and> text d = Some t \<and> (\<exists>c\<in>set t. \<not> isWhiteSpace c) \<longrightarrow>
              transcriptContainer (handleTranscript now d r)
              = sliceLast 20 (filter (\<lambda>e. \<not> isInterim e) (transcriptContainer r)
                              @ [finalElement now t (confidence d)]))
         \<and> (type m = S ''transcript'' \<and> is_final (data m) \<longrightarrow>
              transcripts (handleMessage_prompter m p) = sliceLast 11 (transcripts p @ [data m]))
         \<and> (type m = S ''hint'' \<longrightarrow>
              hints (handleMessage_prompter m p) = sliceLast 6 (hints p @ [data m]))"
proof -
  have "rendererBounded (handleMessages ms r)"
    using assms(1-3) by (intro rendererBounded_handleMessages) (simp add: rendererBounded_def)
  then have r: "finalCount (handleMessages ms r) \<le> 20"
      "interimCount (handleMessages ms r) \<le> 1"
      "length (responseContainer (handleMessages ms r)) \<le> 10"
    by (simp_all add: rendererBounded_def)
  then have total: "length (transcriptContainer (handleMessages ms r)) \<le> 21"
    by (simp add: length_transcriptContainer)
  have p: "length (transcripts (handleMessages_prompter ps p)) \<le> 11
      \<and> length (hints (handleMessages_prompter ps p)) \<le> 6"
    using assms(4,5) by (rule prompter_lengths_run)
  have final: "transcriptContainer (handleTranscript now d r)
      = sliceLast 20 (filter (\<lambda>e. \<not> isInterim e) (transcriptContainer r)
                      @ [finalElement now t (confidence d)])"
    if "is_final d" "text d = Some t" "\<exists>c\<in>set t. \<not> isWhiteSpace c"
    using that(2,3,1) assms(2) by (rule handleTranscript_final_one_interim)
  have pt: "transcripts (handleMessage_prompter m p) = sliceLast 11 (transcripts p @ [data m])"
    if "type m = S ''transcript''" "is_final (data m)"
    using that by (simp add: handleMessage_prompter_def sliceLast_snoc)
  have ph: "hints (handleMessage_prompter m p) = sliceLast 6 (hints p @ [data m])"
    if "type m = S ''hint''"
    using that by (simp add: handleMessage_prompter_def Let_def sliceLast_snoc S_def)
  show ?thesis
    using r total p final pt ph by (simp add: handleResponse_container)
qed


theorem retained_items_bounded_witness:
  "finalCount emptyRenderer \<le> 20 \<and> interimCount emptyRenderer \<le> 1
   \<and> length (responseContainer emptyRenderer) \<le> 10
   \<and> length (transcripts emptyPrompter) \<le> 11 \<and> length (hints emptyPrompter) \<le> 6
   \<and> length (transcriptContainer
         (handleMessages (replicate 20 (0, transcriptMsg (S ''a'') True)
                          @ [(0, transcriptMsg (S ''b'') False)]) emptyRenderer)) \<le> 21
   \<and> hints (handleMessage_prompter (hintMsg (S ''a'') (S ''b'')) emptyPrompter)
       = sliceLast 6 (hints emptyPrompter @ [data (hintMsg (S ''a'') (S ''b''))])"
proof -
  have h1: "finalCount emptyRenderer \<le> 20" and h2: "interimCount emptyRenderer \<le> 1"
    and h3: "length (responseContainer emptyRenderer) \<le> 10"
    by (simp_all add: emptyRenderer_def finalCount_def interimCount_def)
  have h4: "length (transcripts emptyPrompter) \<le> 11"
    and h5: "length (hints emptyPrompter) \<le> 6"
    by (simp_all add: emptyPrompter_def)
  have ty: "type (hintMsg (S ''a'') (S ''b'')) = S ''hint''"
    by (simp add: hintMsg_def)
  note bounded = retained_items_bounded [OF h1 h2 h3 h4 h5,
      of "replicate 20 (0, transcriptMsg (S ''a'') True) @ [(0, transcriptMsg (S ''b'') False)]"
         "[]" 0 "transcriptData None False" "[]" "hintMsg (S ''a'') (S ''b'')"]
  from bounded have "length (transcriptContainer
         (handleMessages (replicate 20 (0, transcriptMsg (S ''a'') True)
                          @ [(0, transcriptMsg (S ''b'') False)]) emptyRenderer)) \<le> 21"
    by blast
  moreover from bounded ty
  have "hints (handleMessage_prompter (hintMsg (S ''a'') (S ''b'')) emptyPrompter)
       = sliceLast 6 (hints emptyPrompter @ [data (hintMsg (S ''a'') (S ''b''))])"
    by blast
  ultimately show ?thesis using h1 h2 h3 h4 h5 by blast
qed

section \<open>Interim transcripts\<close>

lemma interim_present:
  assumes "getElementById (S ''interim-transcript'') es = Some i"
  shows "1 \<le> length (filter isInterim es)"
proof -
  from assms have "i < length es" and "isInterim (es ! i)"
    by (auto simp: isInterim_def dest: getElementById_Some_D)
  then have "\<exists>e\<in>set es. isInterim e" using nth_mem by blast
  then have "filter isInterim es \<noteq> []" by (simp add: filter_empty_conv)
  then show ?thesis by (cases "filter isInterim es") simp_all
qed

lemma one_interim_after_interim:
  assumes "interimCount r \<le> 1" and "text d = Some t" and "\<exists>c\<in>set t. \<not> isWhiteSpace c"
    and "\<not> is_final d"
  shows "transcriptContainer (handleTranscript now d r) =
           (case getElementById (S ''interim-transcript'') (transcriptContainer r) of
              Some i \<Rightarrow> (transcriptContainer r)
                          [i := (transcriptContainer r ! i)\<lparr>innerHTML := interimHtml t\<rparr>]
            | None \<Rightarrow> transcriptContainer r @ [interimElement t])"
    and "interimCount (handleTranscript now d r) = 1"
proof -
  show "transcriptContainer (handleTranscript now d r) =
           (case getElementById (S ''interim-transcript'') (transcriptContainer r) of
              Some i \<Rightarrow> (transcriptContainer r)
                          [i := (transcriptContainer r ! i)\<lparr>innerHTML := interimHtml t\<rparr>]
            | None \<Rightarrow> transcriptContainer r @ [interimElement t])"
  proof (cases "getElementById (S ''interim-transcript'') (transcriptContainer r)")
    case None
    then show ?thesis by (simp add: handleTranscript_interim_new [OF assms(2-4) None])
  next
    case (Some i)
    then show ?thesis by (simp add: handleTranscript_interim_update [OF assms(2-4) Some])
  qed
  show "interimCount (handleTranscript now d r) = 1"
  proof (cases "getElementById (S ''interim-transcript'') (transcriptContainer r)")
    case None
    then show ?thesis
      by (simp add: handleTranscript_interim_new [OF assms(2-4) None] interimCount_def
          no_interim_filter isInterim_interimElement)
  next
    case (Some i)
    then have i: "i < length (transcriptContainer r)"
      by (auto dest: getElementById_Some_D)
    have same: "isInterim ((transcriptContainer r ! i)\<lparr>innerHTML := interimHtml t\<rparr>)
        = isInterim (transcriptContainer r ! i)"
      by (simp add: isInterim_def)
    have "interimCount (handleTranscript now d r) = interimCount r"
      using length_filter_update [OF i same]
      by (simp add: handleTranscript_interim_update [OF assms(2-4) Some] interimCount_def)
    moreover have "1 \<le> interimCount r"
      using interim_present [OF Some] by (simp add: interimCount_def)
    ultimately show ?thesis using assms(1) by simp
  qed
qed

text \<open>
  C5, counterexample: the renderer shows an interim transcript, then receives a final
  transcript whose text is empty; the interim element is still displayed and no final
  element has been appended.
\<close>

theorem blank_final_keeps_interim:
  "transcriptContainer
     (handleMessages [(0, transcriptMsg (S ''hello'') False), (1, transcriptMsg [] True)]
        emptyRenderer) = [interimElement (S ''hello'')]
   \<and> interimCount
     (handleMessages [(0, transcriptMsg (S ''hello'') False), (1, transcriptMsg [] True)]
        emptyRenderer) = 1"
proof -
  have nb: "\<exists>c\<in>set (S ''hello''). \<not> isWhiteSpace c"
    by (simp add: S_def isWhiteSpace_def)
  have first: "handleTranscript 0 (transcriptData (Some (S ''hello'')) False) emptyRenderer
      = emptyRenderer\<lparr>transcriptContainer :=
          transcriptContainer emptyRenderer @ [interimElement (S ''hello'')]\<rparr>"
    using _ nb by (rule handleTranscript_interim_new)
      (simp_all add: transcriptData_def emptyRenderer_def)
  have second: "handleTranscript now (transcriptData (Some []) True) r = r" for now r
    by (rule handleTranscript_guard) (simp add: transcriptData_def)
  have "transcriptContainer
     (handleMessages [(0, transcriptMsg (S ''hello'') False), (1, transcriptMsg [] True)]
        emptyRenderer) = [interimElement (S ''hello'')]"
    by (simp add: handleMessage_transcriptMsg first second) (simp add: emptyRenderer_def)
  then show ?thesis
    by (simp add: interimCount_def isInterim_interimElement)
qed

text \<open>
  C5, as amended: for every sequence of messages at most one interim transcript is
  displayed at any time. The renderer ignores a transcript whose text is absent, empty
  or white space. For any other text, its non-final message replaces the interim element
  in place when there is one and appends one otherwise, and its final message removes
  the interim element and appends the final element. In the prompter every non-final
  message replaces the interim text, and every final message clears it and appends the
  final transcript.
\<close>

theorem interim_superseded:
  assumes "interimCount r \<le> 1" and "text d = Some t" and "\<exists>c\<in>set t. \<not> isWhiteSpace c"
  shows "interimCount (handleMessages ms r) \<le> 1
         \<and> (\<not> is_final d \<longrightarrow>
              transcriptContainer (handleTranscript now d r) =
                (case getElementById (S ''interim-transcript'') (transcriptContainer r) of
                   Some i \<Rightarrow> (transcriptContainer r)
                               [i := (transcriptContainer r ! i)\<lparr>innerHTML := interimHtml t\<rparr>]
                 | None \<Rightarrow> transcriptContainer r @ [interimElement t])
              \<and> interimCount (handleTranscript now d r) = 1)
         \<and> (is_final d \<longrightarrow>
              transcriptContainer (handleTranscript now d r) =
                sliceLast 20 (filter (\<lambda>e. \<not> isInterim e) (transcriptContainer r)
                              @ [finalElement now t (confidence d)])
              \<and> interimCount (handleTranscript now d r) = 0)
         \<and> (type m = S ''transcript'' \<and> \<not> is_final (data m) \<longrightarrow>
              interimText (handleMessage_prompter m p) = text (data m)
              \<and> transcripts (handleMessage_prompter m p) = transcripts p)
         \<and> (type m = S ''transcript'' \<and> is_final (data m) \<longrightarrow>
              interimText (handleMessage_prompter m p) = Some []
              \<and> interimBox (handleMessage_prompter m p) = None
              \<and> transcripts (handleMessage_prompter m p)
                  = sliceLast 10 (transcripts p) @ [data m])"
proof -
  have run: "interimCount (handleMessages ms r) \<le> 1"
    using assms(1) by (rule interimCount_handleMessages)
  have interim: "transcriptContainer (handleTranscript now d r) =
                (case getElementById (S ''interim-transcript'') (transcriptContainer r) of
                   Some i \<Rightarrow> (transcriptContainer r)
                               [i := (transcriptContainer r ! i)\<lparr>innerHTML := interimHtml t\<rparr>]
                 | None \<Rightarrow> transcriptContainer r @ [interimElement t])
              \<and> interimCount (handleTranscript now d r) = 1"
    if "\<not> is_final d"
    using one_interim_after_interim [OF assms that] by simp
  have final: "transcriptContainer (handleTranscript now d r) =
                sliceLast 20 (filter (\<lambda>e. \<not> isInterim e) (transcriptContainer r)
                              @ [finalElement now t (confidence d)])
              \<and> interimCount (handleTranscript now d r) = 0"
    if "is_final d"
    using handleTranscript_final_one_interim [OF assms(2,3) that assms(1)]
      no_interim_after_final [OF assms(2,3) that assms(1)]
    by simp
  have p1: "interimText (handleMessage_prompter m p) = text (data m)
              \<and> transcripts (handleMessage_prompter m p) = transcripts p"
    if "type m = S ''transcript''" "\<not> is_final (data m)"
    using that by (simp add: handleMessage_prompter_def)
  have p2: "interimText (handleMessage_prompter m p) = Some []
              \<and> interimBox (handleMessage_prompter m p) = None
              \<and> transcripts (handleMessage_prompter m p)
                  = sliceLast 10 (transcripts p) @ [data m]"
    if "type m = S ''transcript''" "is_final (data m)"
    using that by (simp add: handleMessage_prompter_def interimBox_def)
  show ?thesis
    using run interim final p1 p2 by blast
qed

theorem interim_superseded_witness:
  "interimCount emptyRenderer \<le> 1
   \<and> text (transcriptData (Some (S ''a'')) True) = Some (S ''a'')
   \<and> (\<exists>c\<in>set (S ''a''). \<not> isWhiteSpace c)
   \<and> interimCount (handleMessages [(0, transcriptMsg (S ''b'') False)] emptyRenderer) \<le> 1
   \<and> interimCount (handleTranscript 0 (transcriptData (Some (S ''a'')) True) emptyRenderer) = 0
   \<and> interimText (handleMessage_prompter (transcriptMsg (S ''b'') False) emptyPrompter)
       = Some (S ''b'')"
proof -
  have h1: "interimCount emptyRenderer \<le> 1"
    by (simp add: emptyRenderer_def interimCount_def)
  have h2: "text (transcriptData (Some (S ''a'')) True) = Some (S ''a'')"
    and fin: "is_final (transcriptData (Some (S ''a'')) True)"
    by (simp_all add: transcriptData_def)
  have ty: "type (transcriptMsg (S ''b'') False) = S ''transcript''"
    and nf: "\<not> is_final (data (transcriptMsg (S ''b'') False))"
    and tx: "text (data (transcriptMsg (S ''b'') False)) = Some (S ''b'')"
    by (simp_all add: transcriptMsg_def transcriptData_def)
  note sup = interim_superseded [OF h1 h2 nonblank_a,
      of "[(0, transcriptMsg (S ''b'') False)]" 0 "transcriptMsg (S ''b'') False" emptyPrompter]
  from sup have "interimCount (handleMessages [(0, transcriptMsg (S ''b'') False)] emptyRenderer) \<le> 1"
    by blast
  moreover from sup fin
  have "interimCount (handleTranscript 0 (transcriptData (Some (S ''a'')) True) emptyRenderer) = 0"
    by blast
  moreover from sup ty nf
  have "interimText (handleMessage_prompter (transcriptMsg (S ''b'') False) emptyPrompter)
       = text (data (transcriptMsg (S ''b'') False))"
    by blast
  ultimately show ?thesis using h1 h2 nonblank_a tx by simp
qed

section \<open>Hint messages\<close>

lemma console_handlers:
  "console (handleTranscript now d r) = console r"
  "console (handleResponse now d r) = console r"
  "console (handleStatus d r) = console r"
  by (simp_all add: handleTranscript_def handleResponse_def updateLatency_def handleStatus_def
      updateStatus_def Let_def split: option.splits)

lemma hint_is_no_renderer_type:
  "S ''hint'' \<noteq> S ''transcript''" "S ''hint'' \<noteq> S ''response''" "S ''hint'' \<noteq> S ''status''"
  by (simp_all add: S_def)

text \<open>
  C1, counterexample: a message of the hint shape reaches the default branch of the
  renderer's \<open>handleMessage\<close>: the renderer logs "Unknown message type:" and displays
  nothing.
\<close>

theorem renderer_takes_hint_for_unknown:
  "handleMessage 0 (hintMsg (S ''use a map'') (S ''how?'')) emptyRenderer
   = emptyRenderer\<lparr>console := [ConsoleWarn (S ''Unknown message type:'') (S ''hint'')]\<rparr>"
  by (simp add: handleMessage_def hintMsg_def hint_is_no_renderer_type)
     (simp add: emptyRenderer_def)

text \<open>
  C1, as amended: for every incoming message of the hint shape, the React prompter
  processes it: the hint becomes the current hint, whose text is rendered together with
  its triggering question, and joins the list of hints. The renderer's \<open>handleMessage\<close>
  has cases for the types "transcript", "response" and "status" only: every other type,
  "hint" among them, reaches the unknown-type branch, which logs a warning and leaves the
  display as it was.
\<close>

theorem hint_rendered_by_prompter:
  "(type m = S ''hint'' \<longrightarrow>
      currentHint (handleMessage_prompter m p) = Some (data m)
      \<and> currentHintPanel (handleMessage_prompter m p) = Some (text (data m), question (data m))
      \<and> hints (handleMessage_prompter m p) = sliceLast 5 (hints p) @ [data m])
   \<and> (type m = S ''hint'' \<longrightarrow>
      handleMessage now m r
      = r\<lparr>console := console r @ [ConsoleWarn (S ''Unknown message type:'') (S ''hint'')]\<rparr>)
   \<and> (console (handleMessage now m r) = console r
      \<longleftrightarrow> type m = S ''transcript'' \<or> type m = S ''response'' \<or> type m = S ''status'')"
proof -
  have prompter: "currentHint (handleMessage_prompter m p) = Some (data m)
      \<and> currentHintPanel (handleMessage_prompter m p) = Some (text (data m), question (data m))
      \<and> hints (handleMessage_prompter m p) = sliceLast 5 (hints p) @ [data m]"
    if "type m = S ''hint''"
    using that
    by (simp add: handleMessage_prompter_def currentHintPanel_def Let_def
        hint_is_no_renderer_type)
  have renderer: "handleMessage now m r
      = r\<lparr>console := console r @ [ConsoleWarn (S ''Unknown message type:'') (S ''hint'')]\<rparr>"
    if "type m = S ''hint''"
    using that by (simp add: handleMessage_def hint_is_no_renderer_type)
  have known: "console (handleMessage now m r) = console r
      \<longleftrightarrow> type m = S ''transcript'' \<or> type m = S ''response'' \<or> type m = S ''status''"
    by (simp add: handleMessage_def console_handlers)
  from prompter renderer known show ?thesis by blast
qed

theorem hint_rendered_by_prompter_witness:
  "type (hintMsg (S ''use a map'') (S ''how?'')) = S ''hint''
   \<and> currentHintPanel (handleMessage_prompter (hintMsg (S ''use a map'') (S ''how?'')) emptyPrompter)
       = Some (Some (S ''use a map''), Some (S ''how?''))
   \<and> console (handleMessage 0 (hintMsg (S ''use a map'') (S ''how?'')) emptyRenderer)
       = [ConsoleWarn (S ''Unknown message type:'') (S ''hint'')]"
proof -
  have ty: "type (hintMsg (S ''use a map'') (S ''how?'')) = S ''hint''"
    and tx: "text (data (hintMsg (S ''use a map'') (S ''how?''))) = Some (S ''use a map'')"
    and qu: "question (data (hintMsg (S ''use a map'') (S ''how?''))) = Some (S ''how?'')"
    by (simp_all add: hintMsg_def)
  note hint = hint_rendered_by_prompter
      [of "hintMsg (S ''use a map'') (S ''how?'')" emptyPrompter 0 emptyRenderer]
  from hint ty
  have "currentHintPanel (handleMessage_prompter (hintMsg (S ''use a map'') (S ''how?'')) emptyPrompter)
       = Some (text (data (hintMsg (S ''use a map'') (S ''how?''))),
               question (data (hintMsg (S ''use a map'') (S ''how?''))))"
    by blast
  then have panel: "currentHintPanel
        (handleMessage_prompter (hintMsg (S ''use a map'') (S ''how?'')) emptyPrompter)
       = Some (Some (S ''use a map''), Some (S ''how?''))"
    by (simp only: tx qu)
  from hint ty
  have "handleMessage 0 (hintMsg (S ''use a map'') (S ''how?'')) emptyRenderer
      = emptyRenderer\<lparr>console := console emptyRenderer
          @ [ConsoleWarn (S ''Unknown message type:'') (S ''hint'')]\<rparr>"
    by blast
  then have "console (handleMessage 0 (hintMsg (S ''use a map'') (S ''how?'')) emptyRenderer)
       = [ConsoleWarn (S ''Unknown message type:'') (S ''hint'')]"
    by (simp add: emptyRenderer_def)
  with ty panel show ?thesis by blast
qed

end
